theory Spec2Isabelle
  imports Main "HOL-Library.Sublist" "HOL-Library.AList" "HOL-Library.Char_ord"
    "HOL-Library.List_Lexorder"
begin

section \<open>Strings\<close>

text \<open>
  A Python \<open>str\<close> is modelled by the bytes of its UTF-8 encoding, so \<open>length\<close> is the
  size the text has in a file written with \<open>encoding='utf-8'\<close>, and a substring test on
  the bytes is the substring test on the code points. \<open>str.lower\<close> and \<open>str.upper\<close> act
  on the ASCII letters; bytes of other code points are left as they are.
\<close>

definition ascii_uppercase :: string where
  "ascii_uppercase = ''ABCDEFGHIJKLMNOPQRSTUVWXYZ''"

definition ascii_lowercase :: string where
  "ascii_lowercase = ''abcdefghijklmnopqrstuvwxyz''"

definition lower_char :: "char \<Rightarrow> char" where
  "lower_char c =
     (case map_of (zip ascii_uppercase ascii_lowercase) c of Some d \<Rightarrow> d | None \<Rightarrow> c)"

definition upper_char :: "char \<Rightarrow> char" where
  "upper_char c =
     (case map_of (zip ascii_lowercase ascii_uppercase) c of Some d \<Rightarrow> d | None \<Rightarrow> c)"

definition lower :: "string \<Rightarrow> string" where
  "lower s = map lower_char s"

definition upper :: "string \<Rightarrow> string" where
  "upper s = map upper_char s"

text \<open>Python's \<open>sub in s\<close> on strings: \<open>sub\<close> occurs as a contiguous run of \<open>s\<close>.\<close>

fun contains :: "string \<Rightarrow> string \<Rightarrow> bool" where
  "contains sub [] = (sub = [])"
| "contains sub (c # cs) = (prefix sub (c # cs) \<or> contains sub cs)"

text \<open>\<open>s.replace(old, new)\<close> for one-character \<open>old\<close> and \<open>new\<close>.\<close>

definition replace_char :: "char \<Rightarrow> char \<Rightarrow> string \<Rightarrow> string" where
  "replace_char old new s = map (\<lambda>c. if c = old then new else c) s"


text \<open>\<open>str(n)\<close> for an \<open>int\<close>: decimal digits, with a minus sign below zero.\<close>

definition digit_char :: "nat \<Rightarrow> char" where
  "digit_char d = ''0123456789'' ! d"

function str_nat :: "nat \<Rightarrow> string" where
  "str_nat n = (if n < 10 then [digit_char n] else str_nat (n div 10) @ [digit_char (n mod 10)])"
  by pat_completeness auto
termination
  by (relation "measure id") auto

declare str_nat.simps [simp del]

definition str_int :: "int \<Rightarrow> string" where
  "str_int i = (if i < 0 then CHR ''-'' # str_nat (nat (- i)) else str_nat (nat i))"

text \<open>Reading a decimal numeral back, to tell the strings of different numbers apart.\<close>

definition digits :: "char set" where
  "digits = set ''0123456789''"

definition digit_val :: "char \<Rightarrow> nat" where
  "digit_val c = (of_char c :: nat) - 48"

definition nat_of :: "string \<Rightarrow> nat" where
  "nat_of s = foldl (\<lambda>a c. 10 * a + digit_val c) 0 s"

text \<open>
  Whitespace, as \<open>str.strip\<close>, \<open>str.isspace\<close> and the pattern \<open>\s\<close> see it: the code
  points U+0009..U+000D, U+001C..U+0020, U+0085, U+00A0, U+1680, U+2000..U+200A, U+2028,
  U+2029, U+202F, U+205F and U+3000. \<open>space_len s\<close> is the number of bytes of the
  whitespace character that \<open>s\<close> starts with, and 0 when it starts with none.
\<close>

definition ascii_space :: "char \<Rightarrow> bool" where
  "ascii_space c = (c \<in> set [CHR 0x09, CHR 0x0A, CHR 0x0B, CHR 0x0C, CHR 0x0D,
                              CHR 0x1C, CHR 0x1D, CHR 0x1E, CHR 0x1F, CHR 0x20])"

fun space_len :: "string \<Rightarrow> nat" where
  "space_len [] = 0"
| "space_len (c # cs) =
     (if ascii_space c then 1
      else if c = CHR 0xC2 then
        (case cs of d # _ \<Rightarrow> if d = CHR 0x85 \<or> d = CHR 0xA0 then 2 else 0 | _ \<Rightarrow> 0)
      else if c = CHR 0xE1 then
        (case cs of d # e # _ \<Rightarrow> if d = CHR 0x9A \<and> e = CHR 0x80 then 3 else 0 | _ \<Rightarrow> 0)
      else if c = CHR 0xE2 then
        (case cs of
           d # e # _ \<Rightarrow>
             if d = CHR 0x80 \<and> e \<in> set [CHR 0x80, CHR 0x81, CHR 0x82, CHR 0x83, CHR 0x84,
                  CHR 0x85, CHR 0x86, CHR 0x87, CHR 0x88, CHR 0x89, CHR 0x8A,
                  CHR 0xA8, CHR 0xA9, CHR 0xAF] then 3
             else if d = CHR 0x81 \<and> e = CHR 0x9F then 3
             else 0
         | _ \<Rightarrow> 0)
      else if c = CHR 0xE3 then
        (case cs of d # e # _ \<Rightarrow> if d = CHR 0x80 \<and> e = CHR 0x80 then 3 else 0 | _ \<Rightarrow> 0)
      else 0)"

lemma space_len_le: "space_len s \<le> length s"
  by (cases s) (auto split: list.splits)

function lstrip :: "string \<Rightarrow> string" where
  "lstrip s = (if space_len s = 0 then s else lstrip (drop (space_len s) s))"
  by pat_completeness auto
termination
proof (relation "measure length")
  fix s :: string
  assume "space_len s \<noteq> 0"
  moreover have "space_len s \<le> length s" by (rule space_len_le)
  ultimately show "(drop (space_len s) s, s) \<in> measure length" by simp
qed simp

declare lstrip.simps [simp del]

text \<open>\<open>blank s\<close>: every character of \<open>s\<close> is whitespace, so that \<open>s.strip()\<close> is empty.\<close>

definition blank :: "string \<Rightarrow> bool" where
  "blank s = (lstrip s = [])"

fun rstrip :: "string \<Rightarrow> string" where
  "rstrip [] = []"
| "rstrip (c # cs) = (if blank (c # cs) then [] else c # rstrip cs)"

definition strip :: "string \<Rightarrow> string" where
  "strip s = rstrip (lstrip s)"





section \<open>organize_versions_by_locale.py\<close>

subsection \<open>detect_locale_from_name\<close>

text \<open>
  The two literals outside ASCII, as UTF-8: the two CJK characters U+4E2D U+6587, and
  the three characters U+00E6 U+0153 U+00AC.
\<close>

definition zhongwen :: string where
  "zhongwen = [CHR 0xE4, CHR 0xB8, CHR 0xAD, CHR 0xE6, CHR 0x96, CHR 0x87]"

definition ae_oe_not :: string where
  "ae_oe_not = [CHR 0xC3, CHR 0xA6, CHR 0xC5, CHR 0x93, CHR 0xC2, CHR 0xAC]"

definition detect_locale_from_name :: "string \<Rightarrow> string" where
  "detect_locale_from_name version_name =
    (let name = lower version_name in
     if contains ''spanish'' name \<or> contains ''reina valera'' name
        \<or> (contains ''biblia'' name \<and> \<not> contains ''portugu'' name)
        \<or> contains ''sagradas escrituras'' name then ''es''
     else if contains ''portuge'' name \<or> contains ''portugu'' name then ''pt''
     else if contains ''german'' name \<or> contains ''luther'' name \<or> contains ''deutsch'' name
       then ''de''
     else if contains ''french'' name \<or> contains ''louis segond'' name
        \<or> contains ''martin (1744)'' name then ''fr''
     else if contains ''italian'' name \<or> contains ''giovanni diodati'' name
        \<or> contains ''riveduta'' name then ''it''
     else if contains ''dutch'' name \<or> contains ''staten vertaling'' name then ''nl''
     else if contains ''swedish'' name then ''sv''
     else if contains ''norwegian'' name then ''no''
     else if contains ''danish'' name then ''da''
     else if contains ''afrikaans'' name then ''af''
     else if contains ''albanian'' name then ''sq''
     else if contains ''basque'' name then ''eu''
     else if contains ''bavarian'' name then ''bar''
     else if contains ''armenian'' name then ''hy''
     else if contains ''turkish'' name then ''tr''
     else if contains ''finnish'' name then ''fi''
     else if contains ''latvian'' name then ''lv''
     else if contains ''lithuanian'' name then ''lt''
     else if contains ''hungarian'' name \<or> contains ''karoli'' name then ''hu''
     else if contains ''romanian'' name then ''ro''
     else if contains ''croatian'' name then ''hr''
     else if contains ''czech'' name \<or> contains ''bkr'' name then ''cs''
     else if contains ''bulgarian'' name then ''bg''
     else if contains ''maori'' name then ''mi''
     else if contains ''swahili'' name then ''sw''
     else if contains ''esperanto'' name then ''eo''
     else if contains ''indonesian'' name then ''id''
     else if contains ''vietnamese'' name then ''vi''
     else if contains ''thai'' name then ''th''
     else if contains ''korean'' name then ''ko''
     else if contains ''chinese'' name \<or> contains zhongwen name \<or> contains ae_oe_not name
       then ''zh''
     else if contains ''arabic'' name \<or> contains ''arab'' name then ''ar''
     else if contains ''russian'' name \<or> contains ''koi8r'' name then ''ru''
     else if contains ''ukrainian'' name then ''uk''
     else if contains ''greek'' name \<or> contains ''septuagint'' name
        \<or> contains ''textus receptus'' name \<or> contains ''byzantine'' name
        \<or> contains ''tischendorf'' name \<or> contains ''westcott'' name then ''el''
     else if contains ''hebrew'' name \<or> contains ''westminster leningrad codex'' name
        \<or> contains ''wlc'' name \<or> contains ''aleppo'' name then ''he''
     else if contains ''latin'' name \<or> contains ''vulgata'' name then ''la''
     else if contains ''english'' name \<or> contains ''kjv'' name \<or> contains ''king james'' name
        \<or> contains ''niv'' name \<or> contains ''nasb'' name
        \<or> contains ''american standard'' name \<or> contains ''bible'' name
        \<or> contains ''testament'' name \<or> contains ''webster'' name
        \<or> contains ''weymouth'' name \<or> contains (''young'' @ CHR 0x27 # ''s'') name
        \<or> contains ''jubilee'' name \<or> contains ''international version'' name
        \<or> contains ''international standard version'' name
        \<or> contains ''living translation'' name \<or> contains (''god'' @ CHR 0x27 # ''s word'') name
       then ''en''
     else ''und'')"

text \<open>
  The same classification as a table: an ordered list of rules, each a list of
  substring patterns and the locale it stands for. A pattern asks for a substring, or
  for a substring in the absence of another one. The first rule with a matching
  pattern gives the locale; \<open>und\<close> is the default.
\<close>

datatype pattern = Has string | HasWithout string string

fun pattern_matches :: "pattern \<Rightarrow> string \<Rightarrow> bool" where
  "pattern_matches (Has sub) name = contains sub name"
| "pattern_matches (HasWithout sub other) name = (contains sub name \<and> \<not> contains other name)"

definition rule_matches :: "pattern list \<times> string \<Rightarrow> string \<Rightarrow> bool" where
  "rule_matches r name = list_ex (\<lambda>p. pattern_matches p name) (fst r)"

fun first_match :: "(pattern list \<times> string) list \<Rightarrow> string \<Rightarrow> string" where
  "first_match [] name = ''und''"
| "first_match (r # rs) name = (if rule_matches r name then snd r else first_match rs name)"

definition locale_rules :: "(pattern list \<times> string) list" where
  "locale_rules =
    [([Has ''spanish'', Has ''reina valera'', HasWithout ''biblia'' ''portugu'',
       Has ''sagradas escrituras''], ''es''),
     ([Has ''portuge'', Has ''portugu''], ''pt''),
     ([Has ''german'', Has ''luther'', Has ''deutsch''], ''de''),
     ([Has ''french'', Has ''louis segond'', Has ''martin (1744)''], ''fr''),
     ([Has ''italian'', Has ''giovanni diodati'', Has ''riveduta''], ''it''),
     ([Has ''dutch'', Has ''staten vertaling''], ''nl''),
     ([Has ''swedish''], ''sv''),
     ([Has ''norwegian''], ''no''),
     ([Has ''danish''], ''da''),
     ([Has ''afrikaans''], ''af''),
     ([Has ''albanian''], ''sq''),
     ([Has ''basque''], ''eu''),
     ([Has ''bavarian''], ''bar''),
     ([Has ''armenian''], ''hy''),
     ([Has ''turkish''], ''tr''),
     ([Has ''finnish''], ''fi''),
     ([Has ''latvian''], ''lv''),
     ([Has ''lithuanian''], ''lt''),
     ([Has ''hungarian'', Has ''karoli''], ''hu''),
     ([Has ''romanian''], ''ro''),
     ([Has ''croatian''], ''hr''),
     ([Has ''czech'', Has ''bkr''], ''cs''),
     ([Has ''bulgarian''], ''bg''),
     ([Has ''maori''], ''mi''),
     ([Has ''swahili''], ''sw''),
     ([Has ''esperanto''], ''eo''),
     ([Has ''indonesian''], ''id''),
     ([Has ''vietnamese''], ''vi''),
     ([Has ''thai''], ''th''),
     ([Has ''korean''], ''ko''),
     ([Has ''chinese'', Has zhongwen, Has ae_oe_not], ''zh''),
     ([Has ''arabic'', Has ''arab''], ''ar''),
     ([Has ''russian'', Has ''koi8r''], ''ru''),
     ([Has ''ukrainian''], ''uk''),
     ([Has ''greek'', Has ''septuagint'', Has ''textus receptus'', Has ''byzantine'',
       Has ''tischendorf'', Has ''westcott''], ''el''),
     ([Has ''hebrew'', Has ''westminster leningrad codex'', Has ''wlc'',
       Has ''aleppo''], ''he''),
     ([Has ''latin'', Has ''vulgata''], ''la''),
     ([Has ''english'', Has ''kjv'', Has ''king james'', Has ''niv'', Has ''nasb'',
       Has ''american standard'', Has ''bible'', Has ''testament'', Has ''webster'',
       Has ''weymouth'', Has (''young'' @ CHR 0x27 # ''s''), Has ''jubilee'',
       Has ''international version'', Has ''international standard version'',
       Has ''living translation'', Has (''god'' @ CHR 0x27 # ''s word'')], ''en'')]"

subsection \<open>organize_versions\<close>

text \<open>
  The file system: a path, by its components, has a file with its content, a directory,
  or nothing; the empty path is the directory the paths start from. \<open>move_ok\<close> says
  which moves \<open>shutil.move\<close> carries out; the other ones raise, which is logged.
\<close>

datatype entry = File string | Dir

type_synonym filesystem = "(string list \<times> entry) list"

definition path_exists :: "filesystem \<Rightarrow> string list \<Rightarrow> bool" where
  "path_exists fs p = (p = [] \<or> map_of fs p \<noteq> None)"

definition is_dir :: "filesystem \<Rightarrow> string list \<Rightarrow> bool" where
  "is_dir fs p = (p = [] \<or> map_of fs p = Some Dir)"

text \<open>
  \<open>mkdir(parents=True, exist_ok=True)\<close>, along the prefixes of the path from the
  shortest: a missing directory is made, and a file in the way raises. The result says
  whether the call returned, and gives the file system it left.
\<close>

fun make_dirs :: "filesystem \<Rightarrow> string list list \<Rightarrow> bool \<times> filesystem" where
  "make_dirs fs [] = (True, fs)"
| "make_dirs fs (p # ps) =
     (case map_of fs p of
        None \<Rightarrow> make_dirs (AList.update p Dir fs) ps
      | Some Dir \<Rightarrow> make_dirs fs ps
      | Some (File content) \<Rightarrow> (False, fs))"

definition mkdir_parents :: "filesystem \<Rightarrow> string list \<Rightarrow> bool \<times> filesystem" where
  "mkdir_parents fs p = make_dirs fs (map (\<lambda>n. take n p) [1..<Suc (length p)])"

text \<open>The names of the version files of a directory, sorted.\<close>

definition is_version_file :: "string \<Rightarrow> bool" where
  "is_version_file name = (suffix ''.json'' name \<or> suffix ''.json.gz'' name)"

definition listing :: "filesystem \<Rightarrow> string list \<Rightarrow> string list" where
  "listing fs src =
     sort (concat (map (\<lambda>item.
       case item of
         (p, File content) \<Rightarrow>
           if p \<noteq> [] \<and> butlast p = src \<and> is_version_file (last p) then [last p] else []
       | (p, Dir) \<Rightarrow> []) fs))"

definition version_stem :: "string \<Rightarrow> string" where
  "version_stem name =
     (if suffix ''.json.gz'' name then take (length name - 8) name
      else if suffix ''.json'' name then take (length name - 5) name
      else name)"

definition target_path :: "string list \<Rightarrow> string \<Rightarrow> string list" where
  "target_path dst name = dst @ [detect_locale_from_name (version_stem name), name]"

text \<open>
  The loop over the sorted files, with the number of files moved. The result says
  whether the loop came to its end (a \<open>mkdir\<close> that raises ends the function).
\<close>

fun organize_loop :: "(string list \<Rightarrow> string list \<Rightarrow> bool) \<Rightarrow> string list \<Rightarrow> string list
    \<Rightarrow> string list \<Rightarrow> filesystem \<times> nat \<Rightarrow> bool \<times> filesystem \<times> nat" where
  "organize_loop move_ok src dst [] acc = (True, acc)"
| "organize_loop move_ok src dst (name # rest) (fs, moved_count) =
     (case mkdir_parents fs (butlast (target_path dst name)) of
        (False, fs1) \<Rightarrow> (False, fs1, moved_count)
      | (True, fs1) \<Rightarrow>
          if path_exists fs1 (target_path dst name)
          then organize_loop move_ok src dst rest (fs1, moved_count)
          else
            (case map_of fs1 (src @ [name]) of
               Some (File content) \<Rightarrow>
                 if move_ok (src @ [name]) (target_path dst name)
                 then organize_loop move_ok src dst rest
                        (AList.update (target_path dst name) (File content)
                           (AList.delete (src @ [name]) fs1), Suc moved_count)
                 else organize_loop move_ok src dst rest (fs1, moved_count)
             | _ \<Rightarrow> organize_loop move_ok src dst rest (fs1, moved_count)))"

definition organize_versions :: "(string list \<Rightarrow> string list \<Rightarrow> bool) \<Rightarrow> string list \<Rightarrow> string list
    \<Rightarrow> filesystem \<Rightarrow> bool \<times> filesystem \<times> nat" where
  "organize_versions move_ok src dst fs =
     (if \<not> (path_exists fs src \<and> is_dir fs src) then (True, fs, 0)
      else
        (case mkdir_parents fs dst of
           (False, fs1) \<Rightarrow> (False, fs1, 0)
         | (True, fs1) \<Rightarrow> organize_loop move_ok src dst (listing fs1 src) (fs1, 0)))"

section \<open>bible_scraper.py\<close>

subsection \<open>Constants\<close>

definition MAX_RETRIES :: nat where
  "MAX_RETRIES = 3"


subsection \<open>build_urls\<close>



subsection \<open>Text files\<close>

text \<open>
  A file opened with \<open>encoding='utf-8'\<close> and read whole: the read raises when the bytes
  are not well-formed UTF-8, and otherwise returns the text with every \<open>\r\n\<close> and every
  lone \<open>\r\<close> turned into \<open>\n\<close> (universal newlines). A write stores the text as it is
  (the line separator of the platform is taken to be \<open>\n\<close>).
\<close>

definition byte_in :: "char \<Rightarrow> nat \<Rightarrow> nat \<Rightarrow> bool" where
  "byte_in c lo hi = (lo \<le> (of_char c :: nat) \<and> (of_char c :: nat) \<le> hi)"

fun utf8_valid :: "string \<Rightarrow> bool" where
  "utf8_valid [] = True"
| "utf8_valid (a # s) =
     (if byte_in a 0x00 0x7F then utf8_valid s
      else if byte_in a 0xC2 0xDF then
        (case s of b # r \<Rightarrow> byte_in b 0x80 0xBF \<and> utf8_valid r | _ \<Rightarrow> False)
      else if byte_in a 0xE0 0xEF then
        (case s of
           b # c # r \<Rightarrow>
             byte_in b (if a = CHR 0xE0 then 0xA0 else 0x80) (if a = CHR 0xED then 0x9F else 0xBF)
             \<and> byte_in c 0x80 0xBF \<and> utf8_valid r
         | _ \<Rightarrow> False)
      else if byte_in a 0xF0 0xF4 then
        (case s of
           b # c # d # r \<Rightarrow>
             byte_in b (if a = CHR 0xF0 then 0x90 else 0x80) (if a = CHR 0xF4 then 0x8F else 0xBF)
             \<and> byte_in c 0x80 0xBF \<and> byte_in d 0x80 0xBF \<and> utf8_valid r
         | _ \<Rightarrow> False)
      else False)"

fun universal_newlines :: "string \<Rightarrow> string" where
  "universal_newlines [] = []"
| "universal_newlines (c # cs) =
     (if c = CHR 0x0D then
        (case cs of
           d # r \<Rightarrow> if d = CHR 0x0A then CHR 0x0A # universal_newlines r
                    else CHR 0x0A # universal_newlines cs
         | [] \<Rightarrow> [CHR 0x0A])
      else c # universal_newlines cs)"

definition read_text :: "string \<Rightarrow> string option" where
  "read_text bytes = (if utf8_valid bytes then Some (universal_newlines bytes) else None)"

subsection \<open>The parsed page\<close>

text \<open>
  The tree BeautifulSoup builds. A \<open>Tag\<close> has its name, the list stored under its
  \<open>class\<close> attribute (empty when it has none), its other attributes and its children.
  \<open>NavigableString\<close> is a text node; \<open>Comment\<close> stands for the string nodes that are
  instances of \<open>NavigableString\<close> but that \<open>get_text\<close> leaves out. A page is the list of
  the top-level nodes.
\<close>

datatype node =
    NavigableString string
  | Comment string
  | Tag string "string list" "(string \<times> string) list" "node list"



fun is_versiontext :: "node \<Rightarrow> bool" where
  "is_versiontext (Tag name classes attrs kids) = (name = ''span'' \<and> ''versiontext'' \<in> set classes)"
| "is_versiontext _ = False"

fun is_block_level :: "node \<Rightarrow> bool" where
  "is_block_level (Tag name classes attrs kids) =
     (name \<in> set [''div'', ''table'', ''tr'', ''td'', ''th'', ''ul'', ''ol'', ''li'', ''hr''])"
| "is_block_level _ = False"






subsection \<open>parse_verse_page\<close>

text \<open>
  \<open>collect_text\<close> returns the texts it appends to \<open>verse_parts\<close> and whether the walk goes
  on: it is \<open>False\<close> at a version marker or a block-level tag, also below the node.
\<close>

fun collect_text :: "node \<Rightarrow> string list \<times> bool"
  and collect_children :: "node list \<Rightarrow> string list \<times> bool" where
  "collect_text (NavigableString s) = (if strip s \<noteq> [] then [strip s] else [], True)"
| "collect_text (Comment s) = (if strip s \<noteq> [] then [strip s] else [], True)"
| "collect_text (Tag name classes attrs kids) =
     (if is_versiontext (Tag name classes attrs kids) then ([], False)
      else if is_block_level (Tag name classes attrs kids) then ([], False)
      else collect_children kids)"
| "collect_children [] = ([], True)"
| "collect_children (child # rest) =
     (case collect_text child of
        (parts, False) \<Rightarrow> (parts, False)
      | (parts, True) \<Rightarrow> (case collect_children rest of (more, go) \<Rightarrow> (parts @ more, go)))"




text \<open>
  What the scraper takes from outside: \<open>session_get n url\<close> is the answer to the \<open>n\<close>-th
  request of the run when it asks for \<open>url\<close>; \<open>html5lib\<close> is the parser
  \<open>BeautifulSoup(html, 'html5lib')\<close>; \<open>strip_markup\<close> is
  \<open>html.unescape(BeautifulSoup(text, 'html.parser').get_text(separator=' ', strip=True))\<close>;
  \<open>path_stem\<close> is \<open>Path(src).stem\<close>; the three last fields say which files can be
  written.
\<close>

datatype response = Response int string | RequestException

record env =
  session_get :: "nat \<Rightarrow> string \<Rightarrow> response"
  html5lib :: "string \<Rightarrow> node list"
  strip_markup :: "string \<Rightarrow> string"
  path_stem :: "string \<Rightarrow> string"
  cache_writable :: "string list \<Rightarrow> bool"
  progress_writable :: bool
  output_writable :: bool



definition dict_update :: "('k \<times> 'v) list \<Rightarrow> ('k \<times> 'v) list \<Rightarrow> ('k \<times> 'v) list" where
  "dict_update d other = fold (\<lambda>(k, v). AList.update k v) other d"








subsection \<open>The scraper and the files it keeps\<close>

text \<open>
  The corpus is the nested dictionary translation, book, chapter, verse, text. A JSON
  file is absent, unreadable, or holds the dictionary dumped into it. \<open>cache\<close> holds the
  files under \<open>html_cache\<close>, by the components of their paths. \<open>requests\<close> is the list of
  the URLs asked from the network so far, and \<open>calls\<close> the history of the calls of
  \<open>fetch_page\<close>: the URL, \<open>skip_fetch\<close> and the page returned. Logging and sleeping are
  left out.
\<close>

type_synonym corpus = "(string \<times> (string \<times> (string \<times> (string \<times> string) list) list) list) list"

datatype 'a stored = Absent | Unreadable | Stored 'a

record scraper =
  data :: corpus
  progress :: "(string \<times> bool) list"
  cache :: "(string list \<times> string) list"
  progress_file :: "(string \<times> bool) list stored"
  output_file :: "corpus stored"
  requests :: "string list"
  calls :: "(string \<times> bool \<times> string option) list"

text \<open>\<open>BibleScraper(...)\<close> in a new process, over the files the old one left.\<close>

definition new_scraper :: "scraper \<Rightarrow> scraper" where
  "new_scraper old = old\<lparr>data := [], progress := [], requests := [], calls := []\<rparr>"

definition load_progress :: "scraper \<Rightarrow> scraper" where
  "load_progress s =
     (let s1 = (case progress_file s of
                  Absent \<Rightarrow> s
                | Unreadable \<Rightarrow> s\<lparr>progress := []\<rparr>
                | Stored p \<Rightarrow> s\<lparr>progress := p\<rparr>)
      in (case output_file s1 of
            Absent \<Rightarrow> s1
          | Unreadable \<Rightarrow> s1\<lparr>data := []\<rparr>
          | Stored d \<Rightarrow> s1\<lparr>data := d\<rparr>))"

definition save_progress :: "env \<Rightarrow> scraper \<Rightarrow> scraper" where
  "save_progress e s =
     (if progress_writable e then s\<lparr>progress_file := Stored (progress s)\<rparr> else s)"

definition save_data :: "env \<Rightarrow> scraper \<Rightarrow> scraper" where
  "save_data e s = (if output_writable e then s\<lparr>output_file := Stored (data s)\<rparr> else s)"

definition progress_key :: "string \<Rightarrow> int \<Rightarrow> int \<Rightarrow> string" where
  "progress_key book chapter verse = book @ ''_'' @ str_int chapter @ ''_'' @ str_int verse"

definition is_verse_completed :: "scraper \<Rightarrow> string \<Rightarrow> int \<Rightarrow> int \<Rightarrow> bool" where
  "is_verse_completed s book chapter verse =
     (case map_of (progress s) (progress_key book chapter verse) of
        Some done \<Rightarrow> done
      | None \<Rightarrow> False)"

definition mark_verse_completed :: "env \<Rightarrow> scraper \<Rightarrow> string \<Rightarrow> int \<Rightarrow> int \<Rightarrow> scraper" where
  "mark_verse_completed e s book chapter verse =
     (let s1 = s\<lparr>progress := AList.update (progress_key book chapter verse) True (progress s)\<rparr>
      in if length (progress s1) mod 10 = 0 then save_progress e s1 else s1)"

text \<open>A run of the process that marks the verses of a list, one after the other.\<close>

fun mark_all :: "env \<Rightarrow> scraper \<Rightarrow> (string \<times> int \<times> int) list \<Rightarrow> scraper" where
  "mark_all e s [] = s"
| "mark_all e s ((book, chapter, verse) # rest) =
     mark_all e (mark_verse_completed e s book chapter verse) rest"

subsection \<open>fetch_page\<close>

definition url_source :: "string \<Rightarrow> string" where
  "url_source url =
     (if contains ''/catholic/'' url then ''catholic''
      else if contains ''/apocrypha/'' url then ''apocrypha''
      else ''unknown'')"

text \<open>
  The cache file of a page, by the components of its path below the directory of the
  script; there is none when the chapter or the verse is 0.
\<close>

definition cache_file_path :: "string \<Rightarrow> string \<Rightarrow> int \<Rightarrow> int \<Rightarrow> string list" where
  "cache_file_path url book chapter verse =
     [''html_cache'',
      if book \<noteq> [] then replace_char CHR '' '' CHR ''_'' book else ''unknown'',
      url_source url,
      str_int chapter @ ''-'' @ str_int verse @ ''.htm'']"

definition cache_file :: "string \<Rightarrow> string \<Rightarrow> int \<Rightarrow> int \<Rightarrow> string list option" where
  "cache_file url book chapter verse =
     (if chapter \<noteq> 0 \<and> verse \<noteq> 0 then Some (cache_file_path url book chapter verse) else None)"

text \<open>
  "Try to load from cache first": a file of less than 100 bytes is ignored, and so is
  one that cannot be read or whose text is blank.
\<close>

definition cache_load :: "scraper \<Rightarrow> string list option \<Rightarrow> string option" where
  "cache_load s cache_path =
     (case cache_path of
        None \<Rightarrow> None
      | Some path \<Rightarrow>
          (case map_of (cache s) path of
             None \<Rightarrow> None
           | Some bytes \<Rightarrow>
               if length bytes < 100 then None
               else (case read_text bytes of
                       None \<Rightarrow> None
                     | Some content \<Rightarrow> if strip content \<noteq> [] then Some content else None)))"

text \<open>"Save to cache": the page is written when there is a cache file and it can be.\<close>

definition cache_save :: "env \<Rightarrow> scraper \<Rightarrow> string list option \<Rightarrow> string \<Rightarrow> scraper" where
  "cache_save e s cache_path html_content =
     (case cache_path of
        None \<Rightarrow> s
      | Some path \<Rightarrow>
          if cache_writable e path then s\<lparr>cache := AList.update path html_content (cache s)\<rparr>
          else s)"

text \<open>
  The loop \<open>for attempt in range(MAX_RETRIES)\<close>, by the number of attempts left: status
  200 gives the page, which is saved; status 404 ends the loop with \<open>None\<close>; any other
  status and a failed request go to the next attempt; \<open>None\<close> is returned after the last.
\<close>

fun fetch_web :: "env \<Rightarrow> scraper \<Rightarrow> string \<Rightarrow> string list option \<Rightarrow> nat \<Rightarrow> string option \<times> scraper" where
  "fetch_web e s url cache_path 0 = (None, s)"
| "fetch_web e s url cache_path (Suc attempts) =
     (let s1 = s\<lparr>requests := requests s @ [url]\<rparr>
      in case session_get e (length (requests s)) url of
           Response status_code html_content \<Rightarrow>
             if status_code = 200 then (Some html_content, cache_save e s1 cache_path html_content)
             else if status_code = 404 then (None, s1)
             else fetch_web e s1 url cache_path attempts
         | RequestException \<Rightarrow> fetch_web e s1 url cache_path attempts)"

definition fetch_page :: "env \<Rightarrow> scraper \<Rightarrow> string \<Rightarrow> string \<Rightarrow> int \<Rightarrow> int \<Rightarrow> bool \<Rightarrow> string option \<times> scraper" where
  "fetch_page e s url book chapter verse skip_fetch =
     (let cache_path = cache_file url book chapter verse;
          (page, s1) = (case cache_load s cache_path of
                          Some content \<Rightarrow> (Some content, s)
                        | None \<Rightarrow> if skip_fetch then (None, s)
                                  else fetch_web e s url cache_path MAX_RETRIES)
      in (page, s1\<lparr>calls := calls s1 @ [(url, skip_fetch, page)]\<rparr>))"

subsection \<open>scrape_verse\<close>

text \<open>The body of the loop that stores the translations found for a verse.\<close>

definition record_verse :: "string \<Rightarrow> int \<Rightarrow> int \<Rightarrow> string \<times> string \<Rightarrow> corpus \<Rightarrow> corpus" where
  "record_verse book chapter verse entry d =
     (let trans_upper = upper (fst entry);
          book_save = replace_char CHR ''_'' CHR '' '' book;
          books = (case map_of d trans_upper of None \<Rightarrow> [] | Some b \<Rightarrow> b);
          chapters = (case map_of books book_save of None \<Rightarrow> [] | Some c \<Rightarrow> c);
          verses = (case map_of chapters (str_int chapter) of None \<Rightarrow> [] | Some v \<Rightarrow> v)
      in AList.update trans_upper
           (AList.update book_save
             (AList.update (str_int chapter)
               (AList.update (str_int verse) (snd entry) verses) chapters) books) d)"

text \<open>\<open>data[translation][book][chapter][verse]\<close>, when all four keys are there.\<close>

definition lookup_verse :: "corpus \<Rightarrow> string \<Rightarrow> string \<Rightarrow> string \<Rightarrow> string \<Rightarrow> string option" where
  "lookup_verse d translation book chapter verse =
     (case map_of d translation of
        None \<Rightarrow> None
      | Some books \<Rightarrow>
          (case map_of books book of
             None \<Rightarrow> None
           | Some chapters \<Rightarrow>
               (case map_of chapters chapter of
                  None \<Rightarrow> None
                | Some verses \<Rightarrow> map_of verses verse)))"






subsection \<open>Values for the examples\<close>

text \<open>
  An environment without network, where every file can be written, and a scraper that
  starts with no file and no data.
\<close>

definition offline :: env where
  "offline = \<lparr>session_get = (\<lambda>n url. RequestException), html5lib = (\<lambda>html. []),
     strip_markup = (\<lambda>text. text), path_stem = (\<lambda>src. src),
     cache_writable = (\<lambda>path. True), progress_writable = True, output_writable = True\<rparr>"

definition first_run :: scraper where
  "first_run = \<lparr>data = [], progress = [], cache = [], progress_file = Absent,
     output_file = Absent, requests = [], calls = []\<rparr>"



text \<open>A network that answers every request with status 200 and the same page.\<close>

definition serving :: "string \<Rightarrow> env" where
  "serving page = offline\<lparr>session_get := (\<lambda>n url. Response 200 page)\<rparr>"





section \<open>apply_book_name_mapping.py\<close>

text \<open>
  A JSON value; an object is a dictionary, in the order of the file. The version file
  holds a JSON value when it can be loaded. The mapping file has the shape its
  annotation gives: version key, English book name, localized book name.
\<close>

datatype json =
    JNull
  | JBool bool
  | JNum int
  | JStr string
  | JArr "json list"
  | JObj "(string \<times> json) list"

text \<open>
  The name a book is stored under: its entry in the book map when there is one and it
  is not empty (\<open>if local_book\<close>), and its own name otherwise.
\<close>

definition target_name :: "(string \<times> string) list \<Rightarrow> string \<Rightarrow> string" where
  "target_name book_map english_book =
     (case map_of book_map english_book of
        Some local_book \<Rightarrow> if local_book \<noteq> [] then local_book else english_book
      | None \<Rightarrow> english_book)"

definition has_local_name :: "(string \<times> string) list \<Rightarrow> string \<Rightarrow> bool" where
  "has_local_name book_map english_book =
     (case map_of book_map english_book of
        Some local_book \<Rightarrow> local_book \<noteq> []
      | None \<Rightarrow> False)"

text \<open>The body of the loop over \<open>data.items()\<close>, on \<open>new_data\<close> and \<open>changed\<close>.\<close>

definition rename_step :: "(string \<times> string) list \<Rightarrow> string \<times> json
    \<Rightarrow> (string \<times> json) list \<times> bool \<Rightarrow> (string \<times> json) list \<times> bool" where
  "rename_step book_map item acc =
     (let english_book = fst item;
          chapters = snd item;
          new_data = fst acc;
          changed = (snd acc \<or> has_local_name book_map english_book);
          target = target_name book_map english_book
      in (case map_of new_data target of
            Some (JObj existing) \<Rightarrow>
              (case chapters of
                 JObj other \<Rightarrow> (AList.update target (JObj (dict_update existing other)) new_data, changed)
               | _ \<Rightarrow> (AList.update target chapters new_data, changed))
          | _ \<Rightarrow> (AList.update target chapters new_data, changed)))"

definition rename_books :: "(string \<times> string) list \<Rightarrow> (string \<times> json) list
    \<Rightarrow> (string \<times> json) list \<times> bool" where
  "rename_books book_map books = fold (rename_step book_map) books ([], False)"

text \<open>
  The function on one version file: \<open>version_name\<close> is the stem of the file name, the
  file is given by what it holds and the result is what it holds afterwards.
\<close>

definition apply_mapping_to_version_file :: "string \<Rightarrow> (string \<times> (string \<times> string) list) list
    \<Rightarrow> bool \<Rightarrow> json stored \<Rightarrow> json stored" where
  "apply_mapping_to_version_file version_name mapping writable file =
     (case map_of mapping (upper version_name) of
        None \<Rightarrow> file
      | Some book_map \<Rightarrow>
          (case file of
             Stored (JObj books) \<Rightarrow>
               (case rename_books book_map books of
                  (new_data, changed) \<Rightarrow>
                    if \<not> changed then file
                    else if writable then Stored (JObj new_data)
                    else file)
           | _ \<Rightarrow> file))"

text \<open>Reading a corpus of one version: the chapters of a book, and one chapter of it.\<close>

definition chapter_of :: "json \<Rightarrow> string \<Rightarrow> json option" where
  "chapter_of chapters c = (case chapters of JObj entries \<Rightarrow> map_of entries c | _ \<Rightarrow> None)"

definition chapter_at :: "(string \<times> json) list \<Rightarrow> string \<Rightarrow> string \<Rightarrow> json option" where
  "chapter_at d book c = (case map_of d book of Some chapters \<Rightarrow> chapter_of chapters c | None \<Rightarrow> None)"

text \<open>
  A corpus of one version has the shape book, chapters: every value is a dictionary (its
  keys distinct). The sources of a chapter of a book of the result are the items of
  the corpus stored under that book that have the chapter.
\<close>

definition is_chapters :: "json \<Rightarrow> bool" where
  "is_chapters v = (case v of JObj entries \<Rightarrow> distinct (map fst entries) | _ \<Rightarrow> False)"

definition sources :: "(string \<times> string) list \<Rightarrow> (string \<times> json) list \<Rightarrow> string \<Rightarrow> string
    \<Rightarrow> (string \<times> json) list" where
  "sources book_map books book c =
     filter (\<lambda>item. target_name book_map (fst item) = book \<and> chapter_of (snd item) c \<noteq> None) books"

section \<open>Properties\<close>

subsection \<open>Evaluation of the string functions\<close>

lemmas lower_eval = lower_def lower_char_def ascii_uppercase_def ascii_lowercase_def

lemmas upper_eval = upper_def upper_char_def ascii_uppercase_def ascii_lowercase_def

subsection \<open>Locale bucketing\<close>

lemma first_match_default:
  "\<not> list_ex (\<lambda>r. rule_matches r name) rules \<Longrightarrow> first_match rules name = ''und''"
  by (induction rules) auto

lemma first_match_first:
  "\<not> list_ex (\<lambda>r. rule_matches r name) pre \<Longrightarrow> rule_matches r name
     \<Longrightarrow> first_match (pre @ r # post) name = snd r"
  by (induction pre) auto

lemma detect_locale_table:
  "detect_locale_from_name version_name = first_match locale_rules (lower version_name)"
  by (simp add: detect_locale_from_name_def locale_rules_def rule_matches_def Let_def)

text \<open>
  C8. \<open>detect_locale_from_name\<close> is the first-match evaluation of the ordered rule
  table on the lower-cased name: the locale of the first rule one of whose substring
  patterns matches, whatever later rules match, and \<open>und\<close> when no rule matches. The name
  REINA VALERA 1909 is classified \<open>es\<close> and NEW INTERNATIONAL VERSION is classified \<open>en\<close>.
\<close>

theorem detect_locale_first_match_wins:
  "detect_locale_from_name version_name = first_match locale_rules (lower version_name)
   \<and> (\<forall>pre r post. locale_rules = pre @ r # post
         \<longrightarrow> \<not> list_ex (\<lambda>q. rule_matches q (lower version_name)) pre
         \<longrightarrow> rule_matches r (lower version_name)
         \<longrightarrow> detect_locale_from_name version_name = snd r)
   \<and> (\<not> list_ex (\<lambda>r. rule_matches r (lower version_name)) locale_rules
         \<longrightarrow> detect_locale_from_name version_name = ''und'')
   \<and> detect_locale_from_name ''REINA VALERA 1909'' = ''es''
   \<and> detect_locale_from_name ''NEW INTERNATIONAL VERSION'' = ''en''"
proof (intro conjI allI impI)
  show "detect_locale_from_name version_name = first_match locale_rules (lower version_name)"
    by (rule detect_locale_table)
next
  fix pre r post
  assume "locale_rules = pre @ r # post"
    and "\<not> list_ex (\<lambda>q. rule_matches q (lower version_name)) pre"
    and "rule_matches r (lower version_name)"
  then show "detect_locale_from_name version_name = snd r"
    using first_match_first [of "lower version_name" pre r post]
    by (simp add: detect_locale_table)
next
  assume "\<not> list_ex (\<lambda>r. rule_matches r (lower version_name)) locale_rules"
  then show "detect_locale_from_name version_name = ''und''"
    using first_match_default [of "lower version_name" locale_rules]
    by (simp add: detect_locale_table)
next
  show "detect_locale_from_name ''REINA VALERA 1909'' = ''es''"
    by (simp add: detect_locale_from_name_def lower_eval)
next
  show "detect_locale_from_name ''NEW INTERNATIONAL VERSION'' = ''en''"
    by (simp add: detect_locale_from_name_def lower_eval zhongwen_def ae_oe_not_def)
qed

text \<open>
  Witness of C8: no rule matches the name XYZ, which is classified \<open>und\<close>; the name
  SPANISH BIBLE matches the first rule and the last one, and is classified \<open>es\<close>.
\<close>

theorem detect_locale_first_match_wins_witness:
  "detect_locale_from_name ''XYZ'' = ''und''
   \<and> rule_matches (last locale_rules) (lower ''SPANISH BIBLE'')
   \<and> detect_locale_from_name ''SPANISH BIBLE'' = ''es''"
proof -
  have none: "\<not> list_ex (\<lambda>r. rule_matches r (lower ''XYZ'')) locale_rules"
    by (simp add: locale_rules_def rule_matches_def lower_eval zhongwen_def ae_oe_not_def)
  have split: "locale_rules = [] @ hd locale_rules # tl locale_rules"
    by (simp add: locale_rules_def)
  have pre: "\<not> list_ex (\<lambda>q. rule_matches q (lower ''SPANISH BIBLE'')) []"
    by simp
  have hit: "rule_matches (hd locale_rules) (lower ''SPANISH BIBLE'')"
    by (simp add: locale_rules_def rule_matches_def lower_eval)
  have later: "rule_matches (last locale_rules) (lower ''SPANISH BIBLE'')"
    by (simp add: locale_rules_def rule_matches_def lower_eval)
  have es: "snd (hd locale_rules) = ''es''"
    by (simp add: locale_rules_def)
  from detect_locale_first_match_wins [of "''XYZ''"] none
  have "detect_locale_from_name ''XYZ'' = ''und''" by blast
  moreover from detect_locale_first_match_wins [of "''SPANISH BIBLE''"] split pre hit
  have "detect_locale_from_name ''SPANISH BIBLE'' = snd (hd locale_rules)" by blast
  ultimately show ?thesis using later es by simp
qed

subsection \<open>Decimal numerals and progress keys\<close>

lemma digit_char_digits: "d < 10 \<Longrightarrow> digit_char d \<in> digits"
proof -
  assume "d < 10"
  then have "d \<in> {0,1,2,3,4,5,6,7,8,9}" by auto
  then show ?thesis by (auto simp: digit_char_def digits_def)
qed

lemma str_nat_digits: "set (str_nat n) \<subseteq> digits"
proof (induction n rule: str_nat.induct)
  case (1 n)
  show ?case
  proof (cases "n < 10")
    case True
    then show ?thesis by (subst str_nat.simps) (simp add: digit_char_digits)
  next
    case False
    with 1 have "set (str_nat (n div 10)) \<subseteq> digits" by simp
    moreover have "digit_char (n mod 10) \<in> digits" by (rule digit_char_digits) simp
    ultimately show ?thesis using False by (subst str_nat.simps) simp
  qed
qed

lemma str_nat_nonempty: "str_nat n \<noteq> []"
  by (subst str_nat.simps) simp

lemma digit_val_char: "d < 10 \<Longrightarrow> digit_val (digit_char d) = d"
proof -
  assume "d < 10"
  then have "d \<in> {0,1,2,3,4,5,6,7,8,9}" by auto
  then show ?thesis by (auto simp: digit_char_def digit_val_def)
qed

lemma nat_of_str_nat: "nat_of (str_nat n) = n"
proof (induction n rule: str_nat.induct)
  case (1 n)
  show ?case
  proof (cases "n < 10")
    case True
    then show ?thesis by (subst str_nat.simps) (simp add: nat_of_def digit_val_char)
  next
    case False
    with 1 have "nat_of (str_nat (n div 10)) = n div 10" by simp
    then show ?thesis using False
      by (subst str_nat.simps) (simp add: nat_of_def digit_val_char)
  qed
qed

lemma str_nat_inj: "str_nat m = str_nat n \<Longrightarrow> m = n"
  by (metis nat_of_str_nat)

lemma str_nat_no_minus: "hd (str_nat n) \<noteq> CHR ''-''"
proof -
  have "hd (str_nat n) \<in> set (str_nat n)" using str_nat_nonempty by simp
  then have "hd (str_nat n) \<in> digits" using str_nat_digits by blast
  then show ?thesis by (auto simp: digits_def)
qed

lemma str_int_inj: "str_int i = str_int j \<Longrightarrow> i = j"
proof -
  assume eq: "str_int i = str_int j"
  have neg: "\<And>a b. CHR ''-'' # str_nat a \<noteq> str_nat b"
    using str_nat_no_minus by (metis list.sel(1))
  show ?thesis
  proof (cases "i < 0")
    case True
    then have j: "j < 0" using eq neg by (auto simp: str_int_def split: if_splits)
    with True eq have "nat (- i) = nat (- j)" by (auto simp: str_int_def dest: str_nat_inj)
    with True j show ?thesis by simp
  next
    case False
    then have j: "\<not> j < 0" using eq neg by (auto simp: str_int_def split: if_splits) (metis)
    with False eq have "nat i = nat j" by (auto simp: str_int_def dest: str_nat_inj)
    with False j show ?thesis by simp
  qed
qed

lemma str_int_no_underscore: "CHR ''_'' \<notin> set (str_int i)"
proof -
  have "CHR ''_'' \<notin> digits" by (simp add: digits_def)
  then have "\<And>n. CHR ''_'' \<notin> set (str_nat n)" using str_nat_digits by blast
  then show ?thesis by (simp add: str_int_def)
qed

lemma split_at_last:
  "x \<notin> set s \<Longrightarrow> x \<notin> set t \<Longrightarrow> a @ x # s = b @ x # t \<Longrightarrow> a = b \<and> s = t"
proof (induction a arbitrary: b)
  case Nil
  then show ?case by (cases b) auto
next
  case (Cons y a)
  then show ?case by (cases b) auto
qed

lemma progress_key_inj:
  assumes "progress_key b c v = progress_key b' c' v'"
  shows "b = b' \<and> c = c' \<and> v = v'"
proof -
  from assms have e: "(b @ CHR ''_'' # str_int c) @ CHR ''_'' # str_int v
      = (b' @ CHR ''_'' # str_int c') @ CHR ''_'' # str_int v'"
    by (simp add: progress_key_def)
  have 1: "b @ CHR ''_'' # str_int c = b' @ CHR ''_'' # str_int c' \<and> str_int v = str_int v'"
    using split_at_last [OF str_int_no_underscore str_int_no_underscore e] .
  then have 2: "b = b' \<and> str_int c = str_int c'"
    using split_at_last [OF str_int_no_underscore str_int_no_underscore] by blast
  from 1 2 show ?thesis by (auto dest: str_int_inj)
qed

lemma progress_mark:
  "map_of (progress (mark_verse_completed e s b c v)) k
     = (if k = progress_key b c v then Some True else map_of (progress s) k)"
  by (simp add: mark_verse_completed_def save_progress_def Let_def update_conv')

lemma progress_mark_all:
  "map_of (progress (mark_all e s ks)) k
     = (if \<exists>x \<in> set ks. k = progress_key (fst x) (fst (snd x)) (snd (snd x)) then Some True
        else map_of (progress s) k)"
proof (induction ks arbitrary: s)
  case Nil
  then show ?case by simp
next
  case (Cons x ks)
  obtain b c v where x: "x = (b, c, v)" by (cases x) auto
  show ?case unfolding x by (simp add: Cons.IH progress_mark)
qed

lemma is_completed_mark_all:
  "is_verse_completed (mark_all e s ks) b c v
     = ((b, c, v) \<in> set ks \<or> is_verse_completed s b c v)"
proof -
  have "(\<exists>x \<in> set ks. progress_key b c v = progress_key (fst x) (fst (snd x)) (snd (snd x)))
          \<longleftrightarrow> (b, c, v) \<in> set ks"
  proof
    assume "\<exists>x \<in> set ks. progress_key b c v = progress_key (fst x) (fst (snd x)) (snd (snd x))"
    then obtain x where "x \<in> set ks"
      and "progress_key b c v = progress_key (fst x) (fst (snd x)) (snd (snd x))" by blast
    then show "(b, c, v) \<in> set ks" using progress_key_inj [of b c v "fst x" "fst (snd x)" "snd (snd x)"]
      by simp
  next
    assume "(b, c, v) \<in> set ks"
    then show "\<exists>x \<in> set ks. progress_key b c v = progress_key (fst x) (fst (snd x)) (snd (snd x))"
      by force
  qed
  then show ?thesis
    by (simp add: is_verse_completed_def progress_mark_all)
qed

lemma reload_progress:
  "progress_writable e \<Longrightarrow>
   progress (load_progress (new_scraper (save_progress e s))) = progress s"
  by (simp add: load_progress_def new_scraper_def save_progress_def Let_def split: stored.splits)

text \<open>
  C6. After a process has marked the verses of a list and written the ledger to the
  progress file, a new process that loads the file finds every verse of the list
  completed, and finds not completed every verse that is not in the list and was not
  completed before.
\<close>

theorem progress_round_trip:
  assumes "progress_writable e"
  shows "((book, chapter, verse) \<in> set marked \<longrightarrow>
            is_verse_completed
              (load_progress (new_scraper (save_progress e (mark_all e s marked))))
              book chapter verse)
       \<and> ((book, chapter, verse) \<notin> set marked \<and> \<not> is_verse_completed s book chapter verse \<longrightarrow>
            \<not> is_verse_completed
              (load_progress (new_scraper (save_progress e (mark_all e s marked))))
              book chapter verse)"
proof -
  have "is_verse_completed (load_progress (new_scraper (save_progress e (mark_all e s marked))))
          book chapter verse = is_verse_completed (mark_all e s marked) book chapter verse"
    using reload_progress [OF assms] by (simp add: is_verse_completed_def)
  then show ?thesis by (simp add: is_completed_mark_all)
qed
text \<open>
  Witness of C6: the first run marks Tobit 1:1 and writes the ledger; the next process
  finds Tobit 1:1 completed and Tobit 1:2 not.
\<close>

theorem progress_round_trip_witness:
  "is_verse_completed
     (load_progress (new_scraper (save_progress offline
        (mark_all offline first_run [(''Tobit'', 1, 1)])))) ''Tobit'' 1 1
   \<and> \<not> is_verse_completed
     (load_progress (new_scraper (save_progress offline
        (mark_all offline first_run [(''Tobit'', 1, 1)])))) ''Tobit'' 1 2"
proof -
  have w: "progress_writable offline" by (simp add: offline_def)
  have a: "(''Tobit'', 1::int, 1::int) \<in> set [(''Tobit'', 1, 1)]" by simp
  have b: "(''Tobit'', 1::int, 2::int) \<notin> set [(''Tobit'', 1, 1)]" by simp
  have c: "\<not> is_verse_completed first_run ''Tobit'' 1 2"
    by (simp add: is_verse_completed_def first_run_def)
  from progress_round_trip [OF w, of "''Tobit''" 1 1 "[(''Tobit'', 1, 1)]" first_run] a
    progress_round_trip [OF w, of "''Tobit''" 1 2 "[(''Tobit'', 1, 1)]" first_run] b c
  show ?thesis by blast
qed

subsection \<open>The corpus\<close>

lemma record_verse_stored:
  "lookup_verse (record_verse book chapter verse (name, text) d)
     (upper name) (replace_char CHR ''_'' CHR '' '' book) (str_int chapter) (str_int verse) = Some text"
  by (simp add: lookup_verse_def record_verse_def Let_def update_conv')

lemma record_verse_other:
  "(t, b, c, v) \<noteq> (upper name, replace_char CHR ''_'' CHR '' '' book, str_int chapter, str_int verse)
   \<Longrightarrow> lookup_verse (record_verse book chapter verse (name, text) d) t b c v = lookup_verse d t b c v"
  by (auto simp add: lookup_verse_def record_verse_def Let_def update_conv' split: option.splits)

lemma record_verse_other_translation:
  "t \<noteq> upper name \<Longrightarrow> map_of (record_verse book chapter verse (name, text) d) t = map_of d t"
  by (simp add: record_verse_def Let_def update_conv')

lemma fold_record_verse_lookup:
  "lookup_verse (fold (record_verse book chapter verse) entries d) t
      (replace_char CHR ''_'' CHR '' '' book) (str_int chapter) (str_int verse)
   = (if filter (\<lambda>entry. upper (fst entry) = t) entries = []
      then lookup_verse d t (replace_char CHR ''_'' CHR '' '' book) (str_int chapter) (str_int verse)
      else Some (snd (last (filter (\<lambda>entry. upper (fst entry) = t) entries))))"
proof (induction entries rule: rev_induct)
  case Nil
  then show ?case by simp
next
  case (snoc entry entries)
  obtain name body where entry: "entry = (name, body)" by (cases entry) auto
  show ?case
  proof (cases "upper name = t")
    case True
    then show ?thesis
      using record_verse_stored [of book "chapter" verse name body]
      by (simp add: entry)
  next
    case False
    then have "(t, replace_char CHR ''_'' CHR '' '' book, str_int chapter, str_int verse)
        \<noteq> (upper name, replace_char CHR ''_'' CHR '' '' book, str_int chapter, str_int verse)"
      by auto
    then show ?thesis
      using snoc.IH False by (simp add: entry record_verse_other)
  qed
qed

text \<open>
  C7. Recording a text for a translation name, a book, a chapter and a verse stores it
  under the upper-cased name, the book with underscores turned into spaces, and the
  chapter and verse as strings, whatever levels the corpus had (none in the empty
  corpus); a second record under the same key replaces the text; every other verse
  entry and every other translation is left as it was; and of the entries recorded for
  one verse, the last one under a translation gives its text.
\<close>

theorem record_verse_last_write_wins:
  "lookup_verse (record_verse book chapter verse (name, text) d)
      (upper name) (replace_char CHR ''_'' CHR '' '' book) (str_int chapter) (str_int verse)
     = Some text
   \<and> lookup_verse (record_verse book chapter verse (name, text) [])
      (upper name) (replace_char CHR ''_'' CHR '' '' book) (str_int chapter) (str_int verse)
     = Some text
   \<and> lookup_verse (record_verse book chapter verse (name, text)
         (record_verse book chapter verse (name, earlier) d))
      (upper name) (replace_char CHR ''_'' CHR '' '' book) (str_int chapter) (str_int verse)
     = Some text
   \<and> ((t, b, c, v) \<noteq> (upper name, replace_char CHR ''_'' CHR '' '' book, str_int chapter,
          str_int verse)
        \<longrightarrow> lookup_verse (record_verse book chapter verse (name, text) d) t b c v
            = lookup_verse d t b c v)
   \<and> (t \<noteq> upper name
        \<longrightarrow> map_of (record_verse book chapter verse (name, text) d) t = map_of d t)
   \<and> lookup_verse (fold (record_verse book chapter verse) entries d) t
        (replace_char CHR ''_'' CHR '' '' book) (str_int chapter) (str_int verse)
     = (if filter (\<lambda>entry. upper (fst entry) = t) entries = []
        then lookup_verse d t (replace_char CHR ''_'' CHR '' '' book) (str_int chapter)
               (str_int verse)
        else Some (snd (last (filter (\<lambda>entry. upper (fst entry) = t) entries))))"
  using record_verse_stored record_verse_other record_verse_other_translation
    fold_record_verse_lookup [of book "chapter" verse entries d t]
  by (intro conjI impI) simp_all

text \<open>
  Witness of C7: in the corpus that holds Tobit 1:1 of the KJV, recording Tobit 1:2
  under the name kjv leaves Tobit 1:1 and adds Tobit 1:2, and leaves the translation
  WEB absent.
\<close>

theorem record_verse_last_write_wins_witness:
  "lookup_verse (record_verse ''Tobit'' 1 2 (''kjv'', ''b'')
       (record_verse ''Tobit'' 1 1 (''KJV'', ''a'') [])) ''KJV'' ''Tobit'' ''1'' ''1'' = Some ''a''
   \<and> lookup_verse (record_verse ''Tobit'' 1 2 (''kjv'', ''b'')
       (record_verse ''Tobit'' 1 1 (''KJV'', ''a'') [])) ''KJV'' ''Tobit'' ''1'' ''2'' = Some ''b''
   \<and> map_of (record_verse ''Tobit'' 1 2 (''kjv'', ''b'')
       (record_verse ''Tobit'' 1 1 (''KJV'', ''a'') [])) ''WEB'' = None"
proof -
  have up: "upper ''kjv'' = ''KJV''" "upper ''KJV'' = ''KJV''" by (simp_all add: upper_eval)
  have bk: "replace_char CHR ''_'' CHR '' '' ''Tobit'' = ''Tobit''" by (simp add: replace_char_def)
  have n1: "str_int 1 = ''1''" and n2: "str_int 2 = ''2''"
    by (simp_all add: str_int_def str_nat.simps digit_char_def)
  have first: "lookup_verse (record_verse ''Tobit'' 1 1 (''KJV'', ''a'') []) ''KJV'' ''Tobit'' ''1'' ''1''
      = Some ''a''"
    using record_verse_last_write_wins [of "''Tobit''" 1 1 "''KJV''" "''a''" "[]"]
    by (simp add: up bk n1)
  have other: "(''KJV'', ''Tobit'', ''1'', ''1'')
      \<noteq> (upper ''kjv'', replace_char CHR ''_'' CHR '' '' ''Tobit'', str_int 1, str_int 2)"
    by (simp add: n2)
  have web: "''WEB'' \<noteq> upper ''kjv''" "''WEB'' \<noteq> upper ''KJV''" by (simp_all add: up)
  have none: "map_of (record_verse ''Tobit'' 1 1 (''KJV'', ''a'') []) ''WEB'' = None"
    using record_verse_last_write_wins [of "''Tobit''" 1 1 "''KJV''" "''a''" "[]" _ "''WEB''"] web
    by simp
  show ?thesis
    using record_verse_last_write_wins [of "''Tobit''" 1 2 "''kjv''" "''b''"
        "record_verse ''Tobit'' 1 1 (''KJV'', ''a'') []" _ "''KJV''" "''Tobit''" "''1''" "''1''"]
      record_verse_last_write_wins [of "''Tobit''" 1 2 "''kjv''" "''b''"
        "record_verse ''Tobit'' 1 1 (''KJV'', ''a'') []" _ "''WEB''"]
      other web first none
    by (simp add: up bk n1 n2)
qed

subsection \<open>fetch_page: failures\<close>


lemma fetch_web_not_found:
  "session_get e (length (requests s)) url = Response 404 body
   \<Longrightarrow> fetch_web e s url cache_path (Suc n) = (None, s\<lparr>requests := requests s @ [url]\<rparr>)"
  by (simp add: Let_def)




subsection \<open>The cache\<close>

lemma lstrip_idem: "lstrip (lstrip s) = lstrip s"
proof (induction s rule: lstrip.induct)
  case (1 s)
  show ?case
  proof (cases "space_len s = 0")
    case True
    then have "lstrip s = s" by (subst lstrip.simps) simp
    then show ?thesis by simp
  next
    case False
    then have "lstrip s = lstrip (drop (space_len s) s)" by (subst lstrip.simps) simp
    with 1 False show ?thesis by simp
  qed
qed

lemma lstrip_Nil: "lstrip [] = []"
  by (subst lstrip.simps) simp

lemma blank_Nil: "blank []"
  by (simp add: blank_def lstrip_Nil)

lemma rstrip_empty: "rstrip s = [] \<longleftrightarrow> blank s"
  by (cases s) (simp_all add: blank_Nil)

lemma strip_empty: "strip s = [] \<longleftrightarrow> blank s"
  by (simp add: strip_def rstrip_empty) (simp add: blank_def lstrip_idem)

lemma universal_newlines_id: "CHR 0x0D \<notin> set s \<Longrightarrow> universal_newlines s = s"
  by (induction s) auto

lemma utf8_valid_ascii: "\<forall>c \<in> set s. byte_in c 0x00 0x7F \<Longrightarrow> utf8_valid s"
  by (induction s) auto

lemma cache_load_save:
  assumes "cache_writable e path"
  shows "cache_load (cache_save e s (Some path) html_content) (Some path)
     = (if length html_content < 100 \<or> \<not> utf8_valid html_content
            \<or> blank (universal_newlines html_content)
        then None else Some (universal_newlines html_content))"
  using assms
  by (simp add: cache_load_def cache_save_def update_conv' read_text_def strip_empty)

text \<open>
  C2, as amended. For a chapter and a verse other than 0, a cache file that can be
  written and a well-formed text: after the text is saved, a load of the same key gives
  the text as it is read back, with every \<open>\r\n\<close> and lone \<open>\r\<close> turned into \<open>\n\<close>, unless
  the text has fewer than 100 bytes or is blank, and then it gives nothing. A text
  without carriage return is read back as it is. The same holds through \<open>fetch_page\<close>:
  after a fetch that took the page from the network, a fetch from the cache only gives
  that result.
\<close>

theorem cache_round_trip:
  assumes "chapter \<noteq> 0" and "verse \<noteq> 0"
    and "cache_writable e (cache_file_path url book chapter verse)"
    and "utf8_valid html_content"
  shows "cache_load (cache_save e s (cache_file url book chapter verse) html_content)
            (cache_file url book chapter verse)
          = (if length html_content < 100 \<or> blank (universal_newlines html_content) then None
             else Some (universal_newlines html_content))
       \<and> (CHR 0x0D \<notin> set html_content \<longrightarrow>
            cache_load (cache_save e s (cache_file url book chapter verse) html_content)
              (cache_file url book chapter verse)
            = (if length html_content < 100 \<or> blank html_content then None
               else Some html_content))
       \<and> (cache_load s (cache_file url book chapter verse) = None
            \<and> session_get e (length (requests s)) url = Response 200 html_content \<longrightarrow>
            fst (fetch_page e s url book chapter verse False) = Some html_content
            \<and> fst (fetch_page e' (snd (fetch_page e s url book chapter verse False))
                      url book chapter verse True)
              = (if length html_content < 100 \<or> blank (universal_newlines html_content)
                 then None else Some (universal_newlines html_content)))"
proof -
  have cf: "cache_file url book chapter verse = Some (cache_file_path url book chapter verse)"
    using assms(1,2) by (simp add: cache_file_def)
  have rt: "cache_load (cache_save e s (cache_file url book chapter verse) html_content)
            (cache_file url book chapter verse)
          = (if length html_content < 100 \<or> blank (universal_newlines html_content) then None
             else Some (universal_newlines html_content))"
    using cache_load_save [OF assms(3)] assms(4) by (simp add: cf)
  have calls_irrelevant: "\<And>t c. cache_load (t\<lparr>calls := c\<rparr>) = cache_load t"
    by (rule ext) (simp add: cache_load_def split: option.split)
  have requests_irrelevant: "\<And>t r. cache_save e (t\<lparr>requests := r\<rparr>) (cache_file url book chapter verse) html_content
      = (cache_save e t (cache_file url book chapter verse) html_content)\<lparr>requests := r\<rparr>"
    by (simp add: cache_save_def cf)
  have requests_load: "\<And>t r. cache_load (t\<lparr>requests := r\<rparr>) = cache_load t"
    by (rule ext) (simp add: cache_load_def split: option.split)
  show ?thesis
  proof (intro conjI impI)
    show "cache_load (cache_save e s (cache_file url book chapter verse) html_content)
            (cache_file url book chapter verse)
          = (if length html_content < 100 \<or> blank (universal_newlines html_content) then None
             else Some (universal_newlines html_content))"
      by (rule rt)
  next
    assume "CHR 0x0D \<notin> set html_content"
    then show "cache_load (cache_save e s (cache_file url book chapter verse) html_content)
              (cache_file url book chapter verse)
            = (if length html_content < 100 \<or> blank html_content then None
               else Some html_content)"
      using rt by (simp add: universal_newlines_id)
  next
    assume a: "cache_load s (cache_file url book chapter verse) = None
            \<and> session_get e (length (requests s)) url = Response 200 html_content"
    then show "fst (fetch_page e s url book chapter verse False) = Some html_content"
      by (simp add: fetch_page_def MAX_RETRIES_def numeral_3_eq_3 Let_def)
  next
    assume a: "cache_load s (cache_file url book chapter verse) = None
            \<and> session_get e (length (requests s)) url = Response 200 html_content"
    then have "snd (fetch_page e s url book chapter verse False)
        = (cache_save e s (cache_file url book chapter verse) html_content)
            \<lparr>requests := requests s @ [url], calls := calls s @ [(url, False, Some html_content)]\<rparr>"
      by (simp add: fetch_page_def MAX_RETRIES_def numeral_3_eq_3 Let_def requests_irrelevant)
         (simp add: cache_save_def cf)
    then show "fst (fetch_page e' (snd (fetch_page e s url book chapter verse False))
                      url book chapter verse True)
              = (if length html_content < 100 \<or> blank (universal_newlines html_content)
                 then None else Some (universal_newlines html_content))"
      using rt by (simp add: fetch_page_def Let_def calls_irrelevant requests_load split: option.splits)
  qed
qed

lemma blank_spaces: "blank (replicate n CHR '' '')"
proof (induction n)
  case 0
  then show ?case by (simp add: blank_Nil)
next
  case (Suc n)
  have "lstrip (CHR '' '' # replicate n CHR '' '') = lstrip (replicate n CHR '' '')"
    by (subst lstrip.simps) (simp add: ascii_space_def)
  with Suc show ?case by (simp add: blank_def)
qed

lemma not_blank_letter:
  "\<not> ascii_space c \<Longrightarrow> c \<notin> set [CHR 0xC2, CHR 0xE1, CHR 0xE2, CHR 0xE3] \<Longrightarrow> \<not> blank (c # cs)"
proof -
  assume "\<not> ascii_space c" and "c \<notin> set [CHR 0xC2, CHR 0xE1, CHR 0xE2, CHR 0xE3]"
  then have "space_len (c # cs) = 0" by simp
  then have "lstrip (c # cs) = c # cs" by (subst lstrip.simps) simp
  then show ?thesis by (simp add: blank_def)
qed

lemma universal_newlines_append:
  "CHR 0x0D \<notin> set s \<Longrightarrow> universal_newlines (s @ t) = s @ universal_newlines t"
  by (induction s) auto

text \<open>
  Witness of C2: a page of 100 letters x is read back as it is, from the cache alone
  and after a fetch that took it from the network.
\<close>

theorem cache_round_trip_witness:
  "cache_load (cache_save offline first_run
        (cache_file ''https://biblehub.com/catholic/tobit/1-1.htm'' ''Tobit'' 1 1)
        (replicate 100 CHR ''x''))
      (cache_file ''https://biblehub.com/catholic/tobit/1-1.htm'' ''Tobit'' 1 1)
     = Some (replicate 100 CHR ''x'')
   \<and> fst (fetch_page offline
        (snd (fetch_page (serving (replicate 100 CHR ''x'')) first_run
           ''https://biblehub.com/catholic/tobit/1-1.htm'' ''Tobit'' 1 1 False))
        ''https://biblehub.com/catholic/tobit/1-1.htm'' ''Tobit'' 1 1 True)
     = Some (replicate 100 CHR ''x'')"
proof -
  let ?url = "''https://biblehub.com/catholic/tobit/1-1.htm''"
  let ?page = "replicate 100 CHR ''x''"
  have w1: "cache_writable offline (cache_file_path ?url ''Tobit'' 1 1)"
    and w2: "cache_writable (serving ?page) (cache_file_path ?url ''Tobit'' 1 1)"
    by (simp_all add: offline_def serving_def)
  have valid: "utf8_valid ?page"
    by (rule utf8_valid_ascii) (simp add: byte_in_def)
  have cr: "CHR 0x0D \<notin> set ?page" by simp
  have "?page = CHR ''x'' # replicate 99 CHR ''x''"
    by (simp add: numeral_eq_Suc)
  then have nb: "\<not> blank ?page"
    using not_blank_letter [of "CHR ''x''" "replicate 99 CHR ''x''"] by (simp add: ascii_space_def)
  have len: "\<not> length ?page < 100" by simp
  have miss: "cache_load first_run (cache_file ?url ''Tobit'' 1 1) = None"
    by (simp add: cache_load_def cache_file_def first_run_def)
  have ok: "session_get (serving ?page) (length (requests first_run)) ?url = Response 200 ?page"
    by (simp add: serving_def)
  have one: "(1::int) \<noteq> 0" by simp
  from cache_round_trip [OF one one w1 valid, of first_run] cr
  have a: "cache_load (cache_save offline first_run (cache_file ?url ''Tobit'' 1 1) ?page)
      (cache_file ?url ''Tobit'' 1 1) = (if length ?page < 100 \<or> blank ?page then None else Some ?page)"
    by blast
  from cache_round_trip [OF one one w2 valid, of first_run offline] miss ok
  have b: "fst (fetch_page offline (snd (fetch_page (serving ?page) first_run ?url ''Tobit'' 1 1 False))
        ?url ''Tobit'' 1 1 True)
      = (if length ?page < 100 \<or> blank (universal_newlines ?page) then None
         else Some (universal_newlines ?page))"
    by blast
  show ?thesis using a b nb len by (simp add: universal_newlines_id [OF cr])
qed

text \<open>
  Counterexample to C2 as stated: a page of 100 spaces has the size of the threshold and
  is not given back, and a page of 100 letters followed by \<open>\r\n\<close> is given back with
  \<open>\n\<close> at the end, which is another text.
\<close>

theorem cache_round_trip_blank_or_cr:
  "length (replicate 100 CHR '' '') = 100
   \<and> cache_load (cache_save offline first_run
        (cache_file ''https://biblehub.com/catholic/tobit/1-1.htm'' ''Tobit'' 1 1)
        (replicate 100 CHR '' ''))
      (cache_file ''https://biblehub.com/catholic/tobit/1-1.htm'' ''Tobit'' 1 1) = None
   \<and> cache_load (cache_save offline first_run
        (cache_file ''https://biblehub.com/catholic/tobit/1-1.htm'' ''Tobit'' 1 1)
        (replicate 100 CHR ''x'' @ [CHR 0x0D, CHR 0x0A]))
      (cache_file ''https://biblehub.com/catholic/tobit/1-1.htm'' ''Tobit'' 1 1)
     = Some (replicate 100 CHR ''x'' @ [CHR 0x0A])
   \<and> replicate 100 CHR ''x'' @ [CHR 0x0A] \<noteq> replicate 100 CHR ''x'' @ [CHR 0x0D, CHR 0x0A]"
proof -
  let ?url = "''https://biblehub.com/catholic/tobit/1-1.htm''"
  have cf: "cache_file ?url ''Tobit'' 1 1 = Some (cache_file_path ?url ''Tobit'' 1 1)"
    by (simp add: cache_file_def)
  have w: "cache_writable offline (cache_file_path ?url ''Tobit'' 1 1)"
    by (simp add: offline_def)
  have v1: "utf8_valid (replicate 100 CHR '' '')"
    by (rule utf8_valid_ascii) (simp add: byte_in_def)
  have v2: "utf8_valid (replicate 100 CHR ''x'' @ [CHR 0x0D, CHR 0x0A])"
    by (rule utf8_valid_ascii) (auto simp add: byte_in_def)
  have u1: "universal_newlines (replicate 100 CHR '' '') = replicate 100 CHR '' ''"
    by (rule universal_newlines_id) simp
  have u2: "universal_newlines (replicate 100 CHR ''x'' @ [CHR 0x0D, CHR 0x0A])
      = replicate 100 CHR ''x'' @ [CHR 0x0A]"
    by (simp add: universal_newlines_append)
  have "replicate 100 CHR ''x'' @ [CHR 0x0A] = CHR ''x'' # (replicate 99 CHR ''x'' @ [CHR 0x0A])"
    by (simp add: numeral_eq_Suc)
  then have nb: "\<not> blank (replicate 100 CHR ''x'' @ [CHR 0x0A])"
    using not_blank_letter [of "CHR ''x''" "replicate 99 CHR ''x'' @ [CHR 0x0A]"]
    by (simp add: ascii_space_def)
  show ?thesis
    using cache_load_save [OF w, of first_run "replicate 100 CHR '' ''"]
      cache_load_save [OF w, of first_run "replicate 100 CHR ''x'' @ [CHR 0x0D, CHR 0x0A]"]
      v1 v2 nb blank_spaces [of 100]
    by (simp add: cf u1 u2)
qed

subsection \<open>scrape_verse: the cache first, then the network\<close>

lemma cache_load_calls [simp]: "cache_load (s\<lparr>calls := c\<rparr>) p = cache_load s p"
  by (simp add: cache_load_def split: option.split)

lemma cache_load_requests [simp]: "cache_load (s\<lparr>requests := r\<rparr>) p = cache_load s p"
  by (simp add: cache_load_def split: option.split)











lemma mark_verse_completed_calls [simp]:
  "calls (mark_verse_completed e s book chapter verse) = calls s"
  "requests (mark_verse_completed e s book chapter verse) = requests s"
  by (simp_all add: mark_verse_completed_def save_progress_def Let_def)

lemma save_data_calls [simp]:
  "calls (save_data e s) = calls s" "requests (save_data e s) = requests s"
  by (simp_all add: save_data_def)












subsection \<open>build_urls: the chapter alias\<close>




text \<open>
  The chapter-6 candidates of the Epistle of Jeremiah share the cache files of the
  chapter-1 candidates: the cache file is named after the chapter asked for.
\<close>

lemma alias_shares_cache_file:
  "cache_file (''https://biblehub.com/catholic/epistle_of_jeremiah/6-'' @ str_int verse @ ''.htm'')
      ''Epistle of Jeremiah'' 1 verse
   = cache_file (''https://biblehub.com/catholic/epistle_of_jeremiah/1-'' @ str_int verse @ ''.htm'')
      ''Epistle of Jeremiah'' 1 verse"
  by (simp add: cache_file_def cache_file_path_def url_source_def)




subsection \<open>The book-name localizer\<close>

lemma dict_update_Cons:
  "dict_update d ((k, v) # other) = dict_update (AList.update k v d) other"
  by (simp add: dict_update_def)

lemma dict_update_lookup:
  "distinct (map fst other) \<Longrightarrow>
   map_of (dict_update d other) k
     = (case map_of other k of Some v \<Rightarrow> Some v | None \<Rightarrow> map_of d k)"
proof (induction other arbitrary: d)
  case Nil
  then show ?case by (simp add: dict_update_def)
next
  case (Cons item other)
  obtain a b where item: "item = (a, b)" by (cases item) auto
  from Cons.prems have d: "distinct (map fst other)" and a: "a \<notin> fst ` set other"
    by (simp_all add: item)
  from a have none: "map_of other a = None" by (simp add: map_of_eq_None_iff)
  show ?case
    using Cons.IH [OF d, of "AList.update a b d"] none
    by (simp add: item dict_update_Cons update_conv' split: option.splits)
qed

lemma dict_update_distinct:
  "distinct (map fst d) \<Longrightarrow> distinct (map fst (dict_update d other))"
proof (induction other arbitrary: d)
  case Nil
  then show ?case by (simp add: dict_update_def)
next
  case (Cons item other)
  obtain a b where item: "item = (a, b)" by (cases item) auto
  show ?case using Cons by (simp add: item dict_update_Cons distinct_update)
qed

lemma update_values:
  "\<forall>item \<in> set al. P (snd item) \<Longrightarrow> P x \<Longrightarrow> \<forall>item \<in> set (AList.update k x al). P (snd item)"
  by (induction al) auto

text \<open>One step of the loop, on a result whose values are all dictionaries.\<close>

lemma rename_step_values:
  assumes "\<forall>item \<in> set (fst acc). is_chapters (snd item)" and "is_chapters (snd item)"
  shows "\<forall>item \<in> set (fst (rename_step book_map item acc)). is_chapters (snd item)"
proof -
  obtain new_data changed where acc: "acc = (new_data, changed)" by (cases acc) auto
  obtain k other where item: "item = (k, JObj other)" and dist: "distinct (map fst other)"
    using assms(2) by (cases item; cases "snd item") (auto simp: is_chapters_def)
  let ?t = "target_name book_map k"
  have old: "\<forall>item \<in> set new_data. is_chapters (snd item)" using assms(1) by (simp add: acc)
  have vals: "\<And>x. is_chapters x
      \<Longrightarrow> \<forall>item \<in> set (AList.update ?t x new_data). is_chapters (snd item)"
    using old by (rule update_values)
  show ?thesis
  proof (cases "map_of new_data ?t")
    case None
    then show ?thesis using vals assms(2) by (simp add: rename_step_def acc item Let_def)
  next
    case (Some ex)
    then have "(?t, ex) \<in> set new_data" by (rule map_of_SomeD)
    then have "is_chapters ex" using old by force
    then obtain existing where ex: "ex = JObj existing" and d2: "distinct (map fst existing)"
      by (cases ex) (auto simp: is_chapters_def)
    have "is_chapters (JObj (dict_update existing other))"
      using d2 by (simp add: is_chapters_def dict_update_distinct)
    then show ?thesis using vals Some
      by (simp add: rename_step_def acc item Let_def ex)
  qed
qed

lemma rename_step_keys:
  "fst ` set (fst (rename_step book_map item acc))
     = insert (target_name book_map (fst item)) (fst ` set (fst acc))"
  by (simp add: rename_step_def Let_def dom_update split: option.split json.split)

lemma rename_step_changed:
  "snd (rename_step book_map item acc) = (snd acc \<or> has_local_name book_map (fst item))"
  by (simp add: rename_step_def Let_def split: option.split json.split)

lemma rename_step_chapter:
  assumes "\<forall>item \<in> set (fst acc). is_chapters (snd item)" and "is_chapters (snd item)"
  shows "chapter_at (fst (rename_step book_map item acc)) book c
     = (if target_name book_map (fst item) = book \<and> chapter_of (snd item) c \<noteq> None
        then chapter_of (snd item) c else chapter_at (fst acc) book c)"
proof -
  obtain new_data changed where acc: "acc = (new_data, changed)" by (cases acc) auto
  obtain k other where item: "item = (k, JObj other)" and dist: "distinct (map fst other)"
    using assms(2) by (cases item; cases "snd item") (auto simp: is_chapters_def)
  let ?t = "target_name book_map k"
  have old: "\<forall>item \<in> set new_data. is_chapters (snd item)" using assms(1) by (simp add: acc)
  show ?thesis
  proof (cases "map_of new_data ?t")
    case None
    then show ?thesis
      by (simp add: rename_step_def acc item Let_def chapter_at_def chapter_of_def update_conv')
  next
    case (Some ex)
    then have "(?t, ex) \<in> set new_data" by (rule map_of_SomeD)
    then have "is_chapters ex" using old by force
    then obtain existing where ex: "ex = JObj existing"
      by (cases ex) (auto simp: is_chapters_def)
    show ?thesis using Some dict_update_lookup [OF dist, of existing c]
      by (auto simp add: rename_step_def acc item Let_def chapter_at_def chapter_of_def
          update_conv' ex split: option.splits)
  qed
qed

lemma rename_books_snoc:
  "rename_books book_map (books @ [item]) = rename_step book_map item (rename_books book_map books)"
  by (simp add: rename_books_def)

lemma sources_snoc:
  "sources book_map (books @ [item]) book c
     = sources book_map books book c
       @ (if target_name book_map (fst item) = book \<and> chapter_of (snd item) c \<noteq> None
          then [item] else [])"
  by (simp add: sources_def)

lemma rename_books_result:
  assumes "\<forall>item \<in> set books. is_chapters (snd item)"
  shows "(\<forall>item \<in> set (fst (rename_books book_map books)). is_chapters (snd item))
    \<and> fst ` set (fst (rename_books book_map books)) = target_name book_map ` fst ` set books
    \<and> snd (rename_books book_map books) = (\<exists>item \<in> set books. has_local_name book_map (fst item))
    \<and> (\<forall>book c. chapter_at (fst (rename_books book_map books)) book c
          = (if sources book_map books book c = [] then None
             else chapter_of (snd (last (sources book_map books book c))) c))"
  using assms
proof (induction books rule: rev_induct)
  case Nil
  then show ?case by (simp add: rename_books_def sources_def chapter_at_def)
next
  case (snoc item books)
  let ?acc = "rename_books book_map books"
  from snoc.prems have old: "\<forall>item \<in> set books. is_chapters (snd item)"
    and new: "is_chapters (snd item)" by simp_all
  from snoc.IH [OF old] have
    v: "\<forall>item \<in> set (fst ?acc). is_chapters (snd item)"
    and k: "fst ` set (fst ?acc) = target_name book_map ` fst ` set books"
    and ch: "snd ?acc = (\<exists>item \<in> set books. has_local_name book_map (fst item))"
    and at: "\<And>book c. chapter_at (fst ?acc) book c
          = (if sources book_map books book c = [] then None
             else chapter_of (snd (last (sources book_map books book c))) c)"
    by simp_all
  have 1: "\<forall>x \<in> set (fst (rename_books book_map (books @ [item]))). is_chapters (snd x)"
    unfolding rename_books_snoc using v new by (rule rename_step_values)
  have 2: "fst ` set (fst (rename_books book_map (books @ [item])))
      = target_name book_map ` fst ` set (books @ [item])"
    unfolding rename_books_snoc by (simp add: rename_step_keys k)
  have 3: "snd (rename_books book_map (books @ [item]))
      = (\<exists>x \<in> set (books @ [item]). has_local_name book_map (fst x))"
    unfolding rename_books_snoc by (auto simp add: rename_step_changed ch)
  have 4: "\<And>book c. chapter_at (fst (rename_books book_map (books @ [item]))) book c
          = (if sources book_map (books @ [item]) book c = [] then None
             else chapter_of (snd (last (sources book_map (books @ [item]) book c))) c)"
    unfolding rename_books_snoc
    by (simp add: rename_step_chapter [OF v new] at sources_snoc)
  from 1 2 3 4 show ?case by blast
qed

text \<open>
  C9, as amended. In a corpus whose values are all chapter dictionaries, every book
  with a non-empty entry in the book map is stored under that entry, and every book
  without an entry, or with an empty one, under its own name. The books of the result
  are these names. A chapter of a book of the result is the chapter of the last item
  of the corpus, in its order, that is stored under this book and has the chapter: on a
  shared chapter key the later source overrides. The file is rewritten with this result
  when some book has a non-empty entry, and is left as it is otherwise.
\<close>

theorem rename_books_merge:
  assumes "\<forall>item \<in> set books. is_chapters (snd item)"
  shows "(map_of book_map english_book = Some local_book \<and> local_book \<noteq> [] \<longrightarrow>
            target_name book_map english_book = local_book)
       \<and> (map_of book_map english_book = None \<or> map_of book_map english_book = Some [] \<longrightarrow>
            target_name book_map english_book = english_book)
       \<and> fst ` set (fst (rename_books book_map books)) = target_name book_map ` fst ` set books
       \<and> chapter_at (fst (rename_books book_map books)) book c
          = (if sources book_map books book c = [] then None
             else chapter_of (snd (last (sources book_map books book c))) c)
       \<and> (map_of mapping (upper version_name) = Some book_map \<longrightarrow>
            apply_mapping_to_version_file version_name mapping True (Stored (JObj books))
            = (if \<exists>item \<in> set books. has_local_name book_map (fst item)
               then Stored (JObj (fst (rename_books book_map books)))
               else Stored (JObj books)))"
proof -
  note r = rename_books_result [OF assms, of book_map]
  have wr: "map_of mapping (upper version_name) = Some book_map \<Longrightarrow>
      apply_mapping_to_version_file version_name mapping True (Stored (JObj books))
        = (if \<exists>item \<in> set books. has_local_name book_map (fst item)
           then Stored (JObj (fst (rename_books book_map books)))
           else Stored (JObj books))"
  proof -
    assume m: "map_of mapping (upper version_name) = Some book_map"
    obtain new_data changed where rb: "rename_books book_map books = (new_data, changed)"
      by (cases "rename_books book_map books") auto
    with r have "changed = (\<exists>item \<in> set books. has_local_name book_map (fst item))" by simp
    then show ?thesis
      by (simp add: apply_mapping_to_version_file_def m rb)
  qed
  show ?thesis
    using r wr by (auto simp add: target_name_def)
qed

text \<open>
  Witness of C9: Genesis and Exodus are both stored under Livre; chapter 1 is the one
  of Exodus, the later source, and chapter 2, which only Genesis has, is kept.
\<close>

theorem rename_books_merge_witness:
  "chapter_at (fst (rename_books [(''Genesis'', ''Livre''), (''Exodus'', ''Livre'')]
      [(''Genesis'', JObj [(''1'', JStr ''a''), (''2'', JStr ''b'')]),
       (''Exodus'', JObj [(''1'', JStr ''c'')])])) ''Livre'' ''1'' = Some (JStr ''c'')
   \<and> chapter_at (fst (rename_books [(''Genesis'', ''Livre''), (''Exodus'', ''Livre'')]
      [(''Genesis'', JObj [(''1'', JStr ''a''), (''2'', JStr ''b'')]),
       (''Exodus'', JObj [(''1'', JStr ''c'')])])) ''Livre'' ''2'' = Some (JStr ''b'')
   \<and> fst ` set (fst (rename_books [(''Genesis'', ''Livre''), (''Exodus'', ''Livre'')]
      [(''Genesis'', JObj [(''1'', JStr ''a''), (''2'', JStr ''b'')]),
       (''Exodus'', JObj [(''1'', JStr ''c'')])])) = {''Livre''}"
proof -
  let ?bm = "[(''Genesis'', ''Livre''), (''Exodus'', ''Livre'')]"
  let ?books = "[(''Genesis'', JObj [(''1'', JStr ''a''), (''2'', JStr ''b'')]),
       (''Exodus'', JObj [(''1'', JStr ''c'')])]"
  have shaped: "\<forall>item \<in> set ?books. is_chapters (snd item)"
    by (simp add: is_chapters_def)
  have s1: "sources ?bm ?books ''Livre'' ''1'' = ?books"
    by (simp add: sources_def target_name_def chapter_of_def)
  have s2: "sources ?bm ?books ''Livre'' ''2'' = [hd ?books]"
    by (simp add: sources_def target_name_def chapter_of_def)
  have t: "target_name ?bm ` fst ` set ?books = {''Livre''}"
    by (simp add: target_name_def)
  from rename_books_merge [OF shaped, of ?bm _ _ "''Livre''" "''1''"] s1
  have a: "chapter_at (fst (rename_books ?bm ?books)) ''Livre'' ''1'' = Some (JStr ''c'')"
    by (simp add: chapter_of_def)
  from rename_books_merge [OF shaped, of ?bm _ _ "''Livre''" "''2''"] s2
  have b: "chapter_at (fst (rename_books ?bm ?books)) ''Livre'' ''2'' = Some (JStr ''b'')"
    by (simp add: chapter_of_def)
  from rename_books_merge [OF shaped, of ?bm] t
  have c: "fst ` set (fst (rename_books ?bm ?books)) = {''Livre''}"
    by simp
  from a b c show ?thesis by simp
qed

text \<open>
  Counterexample to C9 as stated: Genesis has an entry in the book map, the empty name;
  it is not renamed, and the file is left as it is.
\<close>

theorem rename_books_empty_name:
  "map_of [(''Genesis'', [])] ''Genesis'' = Some []
   \<and> fst (rename_books [(''Genesis'', [])] [(''Genesis'', JObj [(''1'', JStr ''a'')])])
     = [(''Genesis'', JObj [(''1'', JStr ''a'')])]
   \<and> apply_mapping_to_version_file ''kjv'' [(''KJV'', [(''Genesis'', [])])] True
       (Stored (JObj [(''Genesis'', JObj [(''1'', JStr ''a'')])]))
     = Stored (JObj [(''Genesis'', JObj [(''1'', JStr ''a'')])])"
  by (simp add: rename_books_def rename_step_def target_name_def has_local_name_def
      apply_mapping_to_version_file_def upper_eval Let_def)

end
